theory Spec2Isabelle
  imports Main "HOL-Library.Multiset"
begin

section \<open>Python strings\<close>

text \<open>
  A Python \<^verbatim>\<open>str\<close> is a sequence of Unicode code points, so it is modelled as a list of
  natural numbers. The character tests below (\<^verbatim>\<open>str.lower\<close>, \<^verbatim>\<open>\d\<close>, \<^verbatim>\<open>\s\<close>, \<^verbatim>\<open>\b\<close>,
  \<^verbatim>\<open>re.IGNORECASE\<close>) are those of Python on the ASCII range; code points from 128 on are
  treated as caseless non-word characters, which is where the model stops following the
  Unicode tables.
\<close>

type_synonym pystr = "nat list"

definition py :: "string \<Rightarrow> pystr" where
  "py cs = map of_char cs"

definition is_digit :: "nat \<Rightarrow> bool" where
  "is_digit c = (48 \<le> c \<and> c \<le> 57)"

definition is_upper :: "nat \<Rightarrow> bool" where
  "is_upper c = (65 \<le> c \<and> c \<le> 90)"

definition is_lower :: "nat \<Rightarrow> bool" where
  "is_lower c = (97 \<le> c \<and> c \<le> 122)"


definition is_word :: "nat \<Rightarrow> bool" where
  "is_word c = (is_digit c \<or> is_upper c \<or> is_lower c \<or> c = 95)"

definition lower_cp :: "nat \<Rightarrow> nat" where
  "lower_cp c = (if is_upper c then c + 32 else c)"

definition upper_cp :: "nat \<Rightarrow> nat" where
  "upper_cp c = (if is_lower c then c - 32 else c)"

definition py_lower :: "pystr \<Rightarrow> pystr" where
  "py_lower s = map lower_cp s"

definition py_upper :: "pystr \<Rightarrow> pystr" where
  "py_upper s = map upper_cp s"


text \<open>\<^verbatim>\<open>s.split(sep)\<close> for a one-character separator: the pieces between the separators,
  always at least one piece.\<close>

fun py_split :: "nat \<Rightarrow> pystr \<Rightarrow> pystr list" where
  "py_split sep [] = [[]]"
| "py_split sep (c # cs) =
     (if c = sep then [] # py_split sep cs
      else (case py_split sep cs of
              p # ps \<Rightarrow> (c # p) # ps
            | [] \<Rightarrow> [[c]]))"

text \<open>\<^verbatim>\<open>s.replace(old, new)\<close>: every non-overlapping occurrence of \<^verbatim>\<open>old\<close>, found from
  left to right, is replaced; an empty \<^verbatim>\<open>old\<close> matches before every character and at the
  end.\<close>

function replace_from :: "pystr \<Rightarrow> pystr \<Rightarrow> pystr \<Rightarrow> pystr" where
  "replace_from old new [] = []"
| "replace_from old new (c # cs) =
     (if old \<noteq> [] \<and> take (length old) (c # cs) = old
      then new @ replace_from old new (drop (length old) (c # cs))
      else c # replace_from old new cs)"
  by pat_completeness auto
termination
  by (relation "measure (\<lambda>(old, new, s). length s)") (auto simp: neq_Nil_conv)

definition py_replace :: "pystr \<Rightarrow> pystr \<Rightarrow> pystr \<Rightarrow> pystr" where
  "py_replace old new s =
     (if old = [] then new @ concat (map (\<lambda>c. c # new) s)
      else replace_from old new s)"

section \<open>Regular expressions as the patterns use them\<close>

text \<open>
  A character class is a list of inclusive code-point ranges. Every search of the program
  passes \<^verbatim>\<open>re.IGNORECASE\<close>, under which a character belongs to a class when its lower-case
  or its upper-case form does.
\<close>

type_synonym cls = "(nat \<times> nat) list"

definition in_cls :: "cls \<Rightarrow> nat \<Rightarrow> bool" where
  "in_cls cl c = list_ex (\<lambda>(lo, hi). lo \<le> c \<and> c \<le> hi) cl"

definition cls_match :: "cls \<Rightarrow> nat \<Rightarrow> bool" where
  "cls_match cl c = (in_cls cl (lower_cp c) \<or> in_cls cl (upper_cp c))"

definition rng :: "char \<Rightarrow> char \<Rightarrow> nat \<times> nat" where
  "rng a b = (of_char a, of_char b)"

definition one :: "char \<Rightarrow> nat \<times> nat" where
  "one a = (of_char a, of_char a)"

text \<open>
  A pattern is a sequence of items: \<^verbatim>\<open>\b\<close>, a greedy repetition \<^verbatim>\<open>{lo,hi}\<close> of a character
  class (a single character or class is the repetition \<^verbatim>\<open>{1,1}\<close>, \<^verbatim>\<open>?\<close> is \<^verbatim>\<open>{0,1}\<close>,
  \<^verbatim>\<open>+\<close> is \<^verbatim>\<open>{1,}\<close>), an ordered choice between sub-patterns, and the opening and closing
  parenthesis of the capturing group.
\<close>

datatype item = Bnd | Rep cls nat "nat option" | Alt "item list list" | Open | Close

definition word_before :: "nat option \<Rightarrow> bool" where
  "word_before prev = (case prev of None \<Rightarrow> False | Some c \<Rightarrow> is_word c)"

definition word_after :: "pystr \<Rightarrow> bool" where
  "word_after rest = (case rest of [] \<Rightarrow> False | c # _ \<Rightarrow> is_word c)"

definition boundary :: "nat option \<Rightarrow> pystr \<Rightarrow> bool" where
  "boundary prev rest = (word_before prev \<noteq> word_after rest)"

text \<open>The number of leading characters of the text that belong to the class, at most \<open>hi\<close>.\<close>

fun run :: "cls \<Rightarrow> nat option \<Rightarrow> pystr \<Rightarrow> nat" where
  "run cl hi [] = 0"
| "run cl hi (c # cs) =
     (if hi = Some 0 then 0
      else if cls_match cl c then Suc (run cl (map_option (\<lambda>h. h - 1) hi) cs)
      else 0)"

definition prev_after :: "nat option \<Rightarrow> pystr \<Rightarrow> nat \<Rightarrow> nat option" where
  "prev_after prev rest k = (if k = 0 then prev else Some (rest ! (k - 1)))"

text \<open>
  The backtracking matcher. \<open>match items prev rest opn cap\<close> matches the items at the
  current position, where \<open>prev\<close> is the character before it and \<open>rest\<close> the text from it
  on; \<open>opn\<close> is the text from where the group was opened and \<open>cap\<close> the text the group has
  captured. The result is the text left after the match and the capture. A repetition
  tries the longest run first and gives characters back one at a time; a choice tries its
  alternatives in order; the first success is the match.
\<close>

function match :: "item list \<Rightarrow> nat option \<Rightarrow> pystr \<Rightarrow> pystr option \<Rightarrow> pystr option
                     \<Rightarrow> (pystr \<times> pystr option) option"
  and rep :: "item list \<Rightarrow> nat option \<Rightarrow> pystr \<Rightarrow> nat \<Rightarrow> nat \<Rightarrow> pystr option \<Rightarrow> pystr option
                     \<Rightarrow> (pystr \<times> pystr option) option"
  and alts :: "item list list \<Rightarrow> item list \<Rightarrow> nat option \<Rightarrow> pystr \<Rightarrow> pystr option \<Rightarrow> pystr option
                     \<Rightarrow> (pystr \<times> pystr option) option"
where
  "match [] prev rest opn cap = Some (rest, cap)"
| "match (Bnd # r) prev rest opn cap =
     (if boundary prev rest then match r prev rest opn cap else None)"
| "match (Rep cl lo hi # r) prev rest opn cap =
     (if run cl hi rest < lo then None else rep r prev rest (run cl hi rest) lo opn cap)"
| "match (Alt as # r) prev rest opn cap = alts as r prev rest opn cap"
| "match (Open # r) prev rest opn cap = match r prev rest (Some rest) cap"
| "match (Close # r) prev rest opn cap =
     match r prev rest opn
       (case opn of None \<Rightarrow> cap | Some t \<Rightarrow> Some (take (length t - length rest) t))"
| "rep r prev rest k lo opn cap =
     (case match r (prev_after prev rest k) (drop k rest) opn cap of
        Some x \<Rightarrow> Some x
      | None \<Rightarrow> if lo < k then rep r prev rest (k - 1) lo opn cap else None)"
| "alts [] r prev rest opn cap = None"
| "alts (a # as) r prev rest opn cap =
     (case match (a @ r) prev rest opn cap of
        Some x \<Rightarrow> Some x
      | None \<Rightarrow> alts as r prev rest opn cap)"
  by pat_completeness auto
termination
  by (relation "inv_image (less_than <*lex*> less_than)
        (\<lambda>x. case x of
           Inl (its, _) \<Rightarrow> (size_list size its, 0)
         | Inr (Inl (r, _, _, k, _)) \<Rightarrow> (size_list size r, Suc k)
         | Inr (Inr (as, r, _)) \<Rightarrow> (size_list (size_list size) as + size_list size r, 0))")
     auto


text \<open>
  \<^verbatim>\<open>re.finditer\<close>: the text is scanned from left to right; at each position the pattern is
  tried, the first position where it matches gives the next match, and the scan goes on
  from the end of a non-empty match (one character further after an empty one or after
  a failure). A match is recorded as its start offset, its end offset, its text and the
  capture of the group.
\<close>

type_synonym rmatch = "nat \<times> nat \<times> pystr \<times> pystr option"

function finditer_from :: "item list \<Rightarrow> nat \<Rightarrow> nat option \<Rightarrow> pystr \<Rightarrow> rmatch list" where
  "finditer_from pat pos prev rest =
     (case match pat prev rest None None of
        None \<Rightarrow>
          (case rest of [] \<Rightarrow> [] | c # cs \<Rightarrow> finditer_from pat (Suc pos) (Some c) cs)
      | Some (rest', cap) \<Rightarrow>
          (pos, pos + (length rest - length rest'), take (length rest - length rest') rest, cap) #
          (if length rest' < length rest
           then finditer_from pat (pos + (length rest - length rest'))
                  (Some (rest ! (length rest - length rest' - 1))) rest'
           else (case rest of [] \<Rightarrow> [] | c # cs \<Rightarrow> finditer_from pat (Suc pos) (Some c) cs)))"
  by pat_completeness auto
termination
  by (relation "measure (\<lambda>(pat, pos, prev, rest). length rest)") auto

declare finditer_from.simps [simp del]

definition finditer :: "item list \<Rightarrow> pystr \<Rightarrow> rmatch list" where
  "finditer pat text = finditer_from pat 0 None text"

fun has_group :: "item \<Rightarrow> bool" where
  "has_group Open = True"
| "has_group (Alt as) = list_ex (list_ex has_group) as"
| "has_group _ = False"

text \<open>
  \<^verbatim>\<open>re.findall\<close> returns the text of each match when the pattern has no group, and the text
  of the group when it has one: the empty string when the group took no part in the match.
\<close>

definition match_value :: "item list \<Rightarrow> rmatch \<Rightarrow> pystr" where
  "match_value pat m =
     (case m of (s, e, whole, cap) \<Rightarrow>
        if list_ex has_group pat then (case cap of None \<Rightarrow> [] | Some g \<Rightarrow> g) else whole)"

definition findall :: "item list \<Rightarrow> pystr \<Rightarrow> pystr list" where
  "findall pat text = map (match_value pat) (finditer pat text)"

section \<open>The detection patterns\<close>

definition lit :: "char \<Rightarrow> item" where
  "lit c = Rep [one c] 1 (Some 1)"

definition lits :: "string \<Rightarrow> item list" where
  "lits cs = map lit cs"

definition digit_cls :: cls where
  "digit_cls = [rng CHR ''0'' CHR ''9'']"

definition space_cls :: cls where
  "space_cls = [(9, 13), (28, 32)]"

text \<open>\<^verbatim>\<open>[-.\s]\<close>\<close>

definition sep_cls :: cls where
  "sep_cls = one CHR ''-'' # one CHR ''.'' # space_cls"

text \<open>\<^verbatim>\<open>\b[A-Za-z0-9._%+-]+@[A-Za-z0-9.-]+\.[A-Z|a-z]{2,}\b\<close>\<close>

definition email_pattern :: "item list" where
  "email_pattern =
     [Bnd,
      Rep [rng CHR ''A'' CHR ''Z'', rng CHR ''a'' CHR ''z'', rng CHR ''0'' CHR ''9'',
           one CHR ''.'', one CHR ''_'', one CHR ''%'', one CHR ''+'', one CHR ''-''] 1 None,
      lit CHR ''@'',
      Rep [rng CHR ''A'' CHR ''Z'', rng CHR ''a'' CHR ''z'', rng CHR ''0'' CHR ''9'',
           one CHR ''.'', one CHR ''-''] 1 None,
      lit CHR ''.'',
      Rep [rng CHR ''A'' CHR ''Z'', one CHR ''|'', rng CHR ''a'' CHR ''z''] 2 None,
      Bnd]"

text \<open>\<^verbatim>\<open>\b(\+\d{1,3}[-.\s]?)?\(?\d{3}\)?[-.\s]?\d{3}[-.\s]?\d{4}\b\<close>\<close>

definition phone_pattern :: "item list" where
  "phone_pattern =
     [Bnd,
      Alt [[Open, lit CHR ''+'', Rep digit_cls 1 (Some 3), Rep sep_cls 0 (Some 1), Close], []],
      Rep [one CHR ''(''] 0 (Some 1),
      Rep digit_cls 3 (Some 3),
      Rep [one CHR '')''] 0 (Some 1),
      Rep sep_cls 0 (Some 1),
      Rep digit_cls 3 (Some 3),
      Rep sep_cls 0 (Some 1),
      Rep digit_cls 4 (Some 4),
      Bnd]"

text \<open>\<^verbatim>\<open>\b\d{3}-\d{2}-\d{4}\b\<close>\<close>

definition ssn_pattern :: "item list" where
  "ssn_pattern =
     [Bnd, Rep digit_cls 3 (Some 3), lit CHR ''-'', Rep digit_cls 2 (Some 2), lit CHR ''-'',
      Rep digit_cls 4 (Some 4), Bnd]"

text \<open>\<^verbatim>\<open>\b\d{4}[-.\s]?\d{4}[-.\s]?\d{4}[-.\s]?\d{4}\b\<close>\<close>

definition credit_card_pattern :: "item list" where
  "credit_card_pattern =
     [Bnd, Rep digit_cls 4 (Some 4), Rep sep_cls 0 (Some 1), Rep digit_cls 4 (Some 4),
      Rep sep_cls 0 (Some 1), Rep digit_cls 4 (Some 4), Rep sep_cls 0 (Some 1),
      Rep digit_cls 4 (Some 4), Bnd]"

text \<open>\<^verbatim>\<open>\b(sk-|pk-|ghp_|gho_|ghu_|ghs_|ghr_)[a-zA-Z0-9]{20,}\b\<close>\<close>

definition api_key_pattern :: "item list" where
  "api_key_pattern =
     [Bnd, Open,
      Alt [lits ''sk-'', lits ''pk-'', lits ''ghp_'', lits ''gho_'', lits ''ghu_'',
           lits ''ghs_'', lits ''ghr_''],
      Close,
      Rep [rng CHR ''a'' CHR ''z'', rng CHR ''A'' CHR ''Z'', rng CHR ''0'' CHR ''9''] 20 None,
      Bnd]"

text \<open>\<^verbatim>\<open>\b[A-Z][a-z]+ [A-Z][a-z]+\b\<close>\<close>

definition name_pattern :: "item list" where
  "name_pattern =
     [Bnd, Rep [rng CHR ''A'' CHR ''Z''] 1 (Some 1), Rep [rng CHR ''a'' CHR ''z''] 1 None,
      lit CHR '' '',
      Rep [rng CHR ''A'' CHR ''Z''] 1 (Some 1), Rep [rng CHR ''a'' CHR ''z''] 1 None, Bnd]"

text \<open>\<^verbatim>\<open>self.patterns\<close>, in the order of the dictionary.\<close>

definition patterns :: "(pystr \<times> item list) list" where
  "patterns =
     [(py ''email'', email_pattern),
      (py ''phone'', phone_pattern),
      (py ''ssn'', ssn_pattern),
      (py ''credit_card'', credit_card_pattern),
      (py ''api_key'', api_key_pattern),
      (py ''name'', name_pattern)]"

section \<open>Detection\<close>

text \<open>An entity is the dictionary \<^verbatim>\<open>{'type', 'value', 'confidence'}\<close>; the confidence is
  the constant 0.9 on every entity and is read nowhere, so the record leaves it out.\<close>

record entity =
  etype :: pystr
  evalue :: pystr

definition detect_entities :: "pystr \<Rightarrow> entity list" where
  "detect_entities text =
     concat (map (\<lambda>(entity_type, pattern).
                    map (\<lambda>m. \<lparr>etype = entity_type, evalue = m\<rparr>) (findall pattern text))
                 patterns)"


text \<open>
  The same scan, keeping for every match its entity type and its span in the text. The
  program itself keeps the values only; the spans are used to state what the
  specification says about offsets.
\<close>

type_synonym span = "pystr \<times> nat \<times> nat \<times> pystr"

definition entity_spans :: "pystr \<Rightarrow> span list" where
  "entity_spans text =
     concat (map (\<lambda>(entity_type, pattern).
                    map (\<lambda>(s, e, whole, cap). (entity_type, s, e, whole)) (finditer pattern text))
                 patterns)"

fun overlap :: "span \<Rightarrow> span \<Rightarrow> bool" where
  "overlap (t1, s1, e1, w1) (t2, s2, e2, w2) = (s1 < e2 \<and> s2 < e1)"

fun non_overlapping :: "span list \<Rightarrow> bool" where
  "non_overlapping [] = True"
| "non_overlapping (x # xs) = (list_all (\<lambda>y. \<not> overlap x y) xs \<and> non_overlapping xs)"

section \<open>The memo table\<close>

datatype error = ValueError

text \<open>\<^verbatim>\<open>chr(i)\<close> raises \<^verbatim>\<open>ValueError\<close> outside \<^verbatim>\<open>range(0x110000)\<close>.\<close>

definition py_chr :: "int \<Rightarrow> error + pystr" where
  "py_chr i = (if 0 \<le> i \<and> i < 1114112 then Inr [nat i] else Inl ValueError)"

text \<open>\<^verbatim>\<open>self.entity_mappings\<close> is a dictionary, kept here in insertion order;
  \<^verbatim>\<open>self.entity_counter\<close> is a Python integer.\<close>

record scope =
  entity_mappings :: "(pystr \<times> pystr) list"
  entity_counter :: int

definition init_scope :: scope where
  "init_scope = \<lparr>entity_mappings = [], entity_counter = 1\<rparr>"

text \<open>\<^verbatim>\<open>key = f"{entity_type}:{value.lower()}"\<close>\<close>

definition mask_key :: "pystr \<Rightarrow> pystr \<Rightarrow> pystr" where
  "mask_key entity_type v = entity_type @ py '':'' @ py_lower v"

text \<open>
  The \<^verbatim>\<open>if\<close>/\<^verbatim>\<open>elif\<close> chain that computes \<^verbatim>\<open>masked_value\<close> for a new key. Unpacking
  \<^verbatim>\<open>value.split('@')\<close> into two names raises \<^verbatim>\<open>ValueError\<close> unless there are exactly two
  pieces. A slice \<^verbatim>\<open>v[-4:]\<close> of a string shorter than four characters is the whole string.
\<close>

definition masked_value :: "pystr \<Rightarrow> pystr \<Rightarrow> int \<Rightarrow> error + pystr" where
  "masked_value entity_type v counter =
     (if entity_type = py ''name'' then
        (case py_chr (64 + counter) of
           Inl e \<Rightarrow> Inl e
         | Inr c \<Rightarrow> Inr (py ''Person '' @ c))
      else if entity_type = py ''email'' then
        (case py_split (of_char CHR ''@'') v of
           [username, domain] \<Rightarrow>
             Inr (take 2 username @ py ''**@'' @ take 2 domain @ py ''**@''
                  @ last (py_split (of_char CHR ''.'') domain))
         | _ \<Rightarrow> Inl ValueError)
      else if entity_type = py ''phone'' then
        (let digits = filter is_digit v
         in Inr (take 2 digits @ py ''**-**-'' @ drop (length digits - 4) digits))
      else if entity_type = py ''ssn'' then Inr (py ''***-**-****'')
      else if entity_type = py ''credit_card'' then
        Inr (py ''****-****-****-'' @ drop (length v - 4) v)
      else if entity_type = py ''api_key'' then
        Inr (take 4 v @ py ''**********'' @ drop (length v - 4) v)
      else Inr (py ''['' @ py_upper entity_type @ py '']''))"

text \<open>
  \<^verbatim>\<open>get_or_create_mapping\<close>: the result (or the exception raised) and the scope after the
  call. An exception is raised before the table is written, so it leaves the scope as it
  was.
\<close>

definition get_or_create_mapping :: "pystr \<Rightarrow> pystr \<Rightarrow> scope \<Rightarrow> (error + pystr) \<times> scope" where
  "get_or_create_mapping entity_type v s =
     (case map_of (entity_mappings s) (mask_key entity_type v) of
        Some tok \<Rightarrow> (Inr tok, s)
      | None \<Rightarrow>
          (case masked_value entity_type v (entity_counter s) of
             Inl e \<Rightarrow> (Inl e, s)
           | Inr mv \<Rightarrow>
               (Inr mv,
                s\<lparr>entity_mappings := entity_mappings s @ [(mask_key entity_type v, mv)],
                   entity_counter := entity_counter s + 1\<rparr>)))"

text \<open>A sequence of calls on one scope; a call that raises leaves the scope unchanged and
  the sequence goes on.\<close>

fun run_calls :: "(pystr \<times> pystr) list \<Rightarrow> scope \<Rightarrow> scope" where
  "run_calls [] s = s"
| "run_calls ((entity_type, v) # cs) s = run_calls cs (snd (get_or_create_mapping entity_type v s))"

section \<open>Redaction\<close>

record report =
  original_content :: pystr
  redacted_content :: pystr
  detected_entities :: "entity list"
  report_entity_mappings :: "(pystr \<times> pystr) list"

text \<open>The loop over the sorted entities. An exception of \<^verbatim>\<open>get_or_create_mapping\<close> ends
  the call; the scope keeps what the earlier iterations wrote.\<close>

fun redact_loop :: "entity list \<Rightarrow> pystr \<Rightarrow> scope \<Rightarrow> (error + pystr) \<times> scope" where
  "redact_loop [] rc s = (Inr rc, s)"
| "redact_loop (e # es) rc s =
     (case get_or_create_mapping (etype e) (evalue e) s of
        (Inl err, s') \<Rightarrow> (Inl err, s')
      | (Inr mv, s') \<Rightarrow> redact_loop es (py_replace (evalue e) mv rc) s')"

text \<open>\<^verbatim>\<open>entities.sort(key=lambda x: len(x['value']), reverse=True)\<close>: a stable sort, longest
  value first.\<close>

definition sort_entities :: "entity list \<Rightarrow> entity list" where
  "sort_entities es = sort_key (\<lambda>x. - int (length (evalue x))) es"

definition redact_content :: "pystr \<Rightarrow> scope \<Rightarrow> (error + report) \<times> scope" where
  "redact_content content s =
     (case redact_loop (sort_entities (detect_entities content)) content s of
        (Inl err, s') \<Rightarrow> (Inl err, s')
      | (Inr rc, s') \<Rightarrow>
          (Inr \<lparr>original_content = content, redacted_content = rc,
                detected_entities = sort_entities (detect_entities content),
                report_entity_mappings = entity_mappings s'\<rparr>, s'))"

text \<open>Several messages redacted one after the other on the same scope.\<close>

fun redact_many :: "pystr list \<Rightarrow> scope \<Rightarrow> scope" where
  "redact_many [] s = s"
| "redact_many (t # ts) s = redact_many ts (snd (redact_content t s))"

section \<open>The SDK client\<close>

datatype sdk_error = ValidationError | APIError | ProcessingError



section \<open>The substitution the specification describes\<close>

text \<open>
  Conflict resolution as the specification words it: the matches sorted by descending
  length of the matched text, then by ascending start offset; a match is accepted when
  it overlaps no match accepted before it; the accepted matches are returned in ascending
  start order.
\<close>

fun spec_accept :: "span list \<Rightarrow> span list \<Rightarrow> span list" where
  "spec_accept acc [] = acc"
| "spec_accept acc (m # ms) =
     (if list_ex (overlap m) acc then spec_accept acc ms else spec_accept (acc @ [m]) ms)"

definition spec_resolve :: "span list \<Rightarrow> span list" where
  "spec_resolve ms =
     sort_key (\<lambda>(t, s, e, w). s)
       (spec_accept []
          (sort_key (\<lambda>(t, s, e, w). - int (length w)) (sort_key (\<lambda>(t, s, e, w). s) ms)))"

text \<open>Substitution by offsets into the original text, spans taken in descending start
  order.\<close>

fun spec_substitute :: "pystr \<Rightarrow> (nat \<times> nat \<times> pystr) list \<Rightarrow> pystr" where
  "spec_substitute text [] = text"
| "spec_substitute text ((s, e, tok) # ms) = spec_substitute (take s text @ tok @ drop e text) ms"

fun spec_tokens :: "span list \<Rightarrow> scope \<Rightarrow> (nat \<times> nat \<times> pystr) list" where
  "spec_tokens [] sc = []"
| "spec_tokens ((t, s, e, w) # ms) sc =
     (case get_or_create_mapping t w sc of
        (Inl err, sc') \<Rightarrow> spec_tokens ms sc'
      | (Inr tok, sc') \<Rightarrow> (s, e, tok) # spec_tokens ms sc')"

definition spec_redact :: "pystr \<Rightarrow> scope \<Rightarrow> pystr" where
  "spec_redact text sc =
     spec_substitute text (rev (spec_tokens (spec_resolve (entity_spans text)) sc))"


text \<open>Two strings that differ only in the case of ASCII letters.\<close>

definition same_up_to_case :: "pystr \<Rightarrow> pystr \<Rightarrow> bool" where
  "same_up_to_case v1 v2 =
     list_all2 (\<lambda>a b. a = b \<or> (is_upper a \<and> b = a + 32) \<or> (is_lower a \<and> b = a - 32)) v1 v2"

text \<open>Every key of type ssn in the table holds the fixed token.\<close>

definition ssn_fixed :: "scope \<Rightarrow> bool" where
  "ssn_fixed s =
     (\<forall>v tok. map_of (entity_mappings s) (mask_key (py ''ssn'') v) = Some tok
        \<longrightarrow> tok = py ''***-**-****'')"

text \<open>The token that the table of a scope holds for an entity.\<close>

definition token_of :: "scope \<Rightarrow> entity \<Rightarrow> pystr" where
  "token_of s e =
     (case map_of (entity_mappings s) (mask_key (etype e) (evalue e)) of
        Some tok \<Rightarrow> tok
      | None \<Rightarrow> [])"

section \<open>Properties of the memo table\<close>

lemma goc_hit:
  "map_of (entity_mappings s) (mask_key t v) = Some tok \<Longrightarrow> get_or_create_mapping t v s = (Inr tok, s)"
  by (simp add: get_or_create_mapping_def)

lemma goc_extends:
  "\<exists>ys. entity_mappings (snd (get_or_create_mapping t v s)) = entity_mappings s @ ys"
  by (simp add: get_or_create_mapping_def split: option.split sum.split)

lemma goc_keeps:
  "map_of (entity_mappings s) k = Some x \<Longrightarrow>
   map_of (entity_mappings (snd (get_or_create_mapping t v s))) k = Some x"
  by (auto simp: get_or_create_mapping_def map_add_Some_iff split: option.split sum.split)

lemma goc_stores:
  "get_or_create_mapping t v s = (Inr tok, s') \<Longrightarrow>
   map_of (entity_mappings s') (mask_key t v) = Some tok"
  by (auto simp: get_or_create_mapping_def map_add_Some_iff split: option.splits sum.splits)

lemma run_calls_extends:
  "\<exists>ys. entity_mappings (run_calls cs s) = entity_mappings s @ ys"
proof (induction cs arbitrary: s)
  case Nil
  show ?case by simp
next
  case (Cons c cs)
  obtain t v where c: "c = (t, v)" by (cases c)
  from goc_extends obtain ys where
    1: "entity_mappings (snd (get_or_create_mapping t v s)) = entity_mappings s @ ys" by blast
  from Cons.IH obtain zs where
    "entity_mappings (run_calls cs (snd (get_or_create_mapping t v s))) =
       entity_mappings (snd (get_or_create_mapping t v s)) @ zs" by blast
  with 1 c show ?case by simp
qed

lemma run_calls_keeps:
  "map_of (entity_mappings s) k = Some x \<Longrightarrow> map_of (entity_mappings (run_calls cs s)) k = Some x"
proof -
  assume a: "map_of (entity_mappings s) k = Some x"
  from run_calls_extends obtain ys where "entity_mappings (run_calls cs s) = entity_mappings s @ ys"
    by blast
  with a show ?thesis by (simp add: map_add_Some_iff)
qed

text \<open>
  Claim C1. Once \<open>get_or_create_mapping\<close> has assigned a token to a key, every later
  call with the same key, after any sequence of further calls on the scope, returns that
  stored token and leaves the scope as it is; the table after those calls is the earlier
  table with entries appended, so that no entry is removed or altered.
\<close>

theorem memo_stable_append_only:
  assumes "get_or_create_mapping t v s = (Inr tok, s1)"
    and "mask_key t' v' = mask_key t v"
  shows "get_or_create_mapping t' v' (run_calls cs s1) = (Inr tok, run_calls cs s1) \<and>
         (\<exists>ys. entity_mappings (run_calls cs s1) = entity_mappings s @ ys) \<and>
         (\<forall>k x. map_of (entity_mappings s) k = Some x \<longrightarrow>
                map_of (entity_mappings (run_calls cs s1)) k = Some x)"
proof -
  from assms(1) have "map_of (entity_mappings s1) (mask_key t v) = Some tok"
    by (rule goc_stores)
  then have "map_of (entity_mappings (run_calls cs s1)) (mask_key t' v') = Some tok"
    using assms(2) by (simp add: run_calls_keeps)
  then have A: "get_or_create_mapping t' v' (run_calls cs s1) = (Inr tok, run_calls cs s1)"
    by (rule goc_hit)
  have s1: "s1 = snd (get_or_create_mapping t v s)" using assms(1) by simp
  obtain ys where ys: "entity_mappings s1 = entity_mappings s @ ys"
    using goc_extends[of t v s] s1 by auto
  obtain zs where zs: "entity_mappings (run_calls cs s1) = entity_mappings s1 @ zs"
    using run_calls_extends by blast
  have B: "\<exists>ys. entity_mappings (run_calls cs s1) = entity_mappings s @ ys"
    using ys zs by simp
  have C: "\<forall>k x. map_of (entity_mappings s) k = Some x \<longrightarrow>
                map_of (entity_mappings (run_calls cs s1)) k = Some x"
    using ys zs by (simp add: map_add_Some_iff)
  from A B C show ?thesis by blast
qed

theorem memo_stable_append_only_witness:
  "get_or_create_mapping (py ''name'') (py ''John Smith'') init_scope =
     (Inr (py ''Person A''),
      \<lparr>entity_mappings = [(py ''name:john smith'', py ''Person A'')], entity_counter = 2\<rparr>) \<and>
   mask_key (py ''name'') (py ''JOHN SMITH'') = mask_key (py ''name'') (py ''John Smith'') \<and>
   get_or_create_mapping (py ''name'') (py ''JOHN SMITH'')
     (run_calls [(py ''ssn'', py ''123-45-6789'')]
        \<lparr>entity_mappings = [(py ''name:john smith'', py ''Person A'')], entity_counter = 2\<rparr>) =
     (Inr (py ''Person A''),
      run_calls [(py ''ssn'', py ''123-45-6789'')]
        \<lparr>entity_mappings = [(py ''name:john smith'', py ''Person A'')], entity_counter = 2\<rparr>)"
proof -
  have h1: "get_or_create_mapping (py ''name'') (py ''John Smith'') init_scope =
     (Inr (py ''Person A''),
      \<lparr>entity_mappings = [(py ''name:john smith'', py ''Person A'')], entity_counter = 2\<rparr>)"
    by code_simp
  have h2: "mask_key (py ''name'') (py ''JOHN SMITH'') = mask_key (py ''name'') (py ''John Smith'')"
    by code_simp
  from memo_stable_append_only[OF h1 h2, of "[(py ''ssn'', py ''123-45-6789'')]"] h1 h2
  show ?thesis by blast
qed

lemma same_up_to_case_lower: "same_up_to_case v1 v2 \<Longrightarrow> py_lower v1 = py_lower v2"
  unfolding same_up_to_case_def py_lower_def
  by (induction v1 v2 rule: list_all2_induct)
     (auto simp: lower_cp_def is_upper_def is_lower_def)

text \<open>
  Claim C10. For every entity type, two raw values that differ only in the case of ASCII
  letters have the same memo key; once one of them has been given a token, the other
  receives that same token, also after any further calls on the scope.
\<close>

theorem case_variants_share_token:
  assumes "same_up_to_case v1 v2"
    and "get_or_create_mapping t v1 s = (Inr tok, s1)"
  shows "mask_key t v2 = mask_key t v1 \<and>
         get_or_create_mapping t v2 (run_calls cs s1) = (Inr tok, run_calls cs s1)"
proof -
  have k: "mask_key t v2 = mask_key t v1"
    using same_up_to_case_lower[OF assms(1)] by (simp add: mask_key_def)
  from assms(2) have "map_of (entity_mappings s1) (mask_key t v1) = Some tok"
    by (rule goc_stores)
  then have "map_of (entity_mappings (run_calls cs s1)) (mask_key t v2) = Some tok"
    using k by (simp add: run_calls_keeps)
  then have "get_or_create_mapping t v2 (run_calls cs s1) = (Inr tok, run_calls cs s1)"
    by (rule goc_hit)
  with k show ?thesis by simp
qed

text \<open>Claim C10 at the API keys \<^verbatim>\<open>SK-ABC\<close> and \<^verbatim>\<open>sk-abc\<close>.\<close>

theorem case_variants_share_token_witness:
  "same_up_to_case (py ''SK-ABC'') (py ''sk-abc'') \<and>
   get_or_create_mapping (py ''api_key'') (py ''SK-ABC'') init_scope =
     (Inr (py ''SK-A**********-ABC''),
      \<lparr>entity_mappings = [(py ''api_key:sk-abc'', py ''SK-A**********-ABC'')],
         entity_counter = 2\<rparr>) \<and>
   get_or_create_mapping (py ''api_key'') (py ''sk-abc'')
      \<lparr>entity_mappings = [(py ''api_key:sk-abc'', py ''SK-A**********-ABC'')],
         entity_counter = 2\<rparr> =
     (Inr (py ''SK-A**********-ABC''),
      \<lparr>entity_mappings = [(py ''api_key:sk-abc'', py ''SK-A**********-ABC'')],
         entity_counter = 2\<rparr>)"
proof -
  have h1: "same_up_to_case (py ''SK-ABC'') (py ''sk-abc'')"
    by (simp add: same_up_to_case_def py_def is_upper_def is_lower_def)
  have h2: "get_or_create_mapping (py ''api_key'') (py ''SK-ABC'') init_scope =
     (Inr (py ''SK-A**********-ABC''),
      \<lparr>entity_mappings = [(py ''api_key:sk-abc'', py ''SK-A**********-ABC'')],
         entity_counter = 2\<rparr>)"
    by code_simp
  from case_variants_share_token[OF h1 h2, of "[]"] h1 h2 show ?thesis by simp
qed




text \<open>
  Claim C9 at the input \<^verbatim>\<open>555-123-4567\<close>: the phone pattern matches the whole number, and
  the entity that detection emits carries the text of the pattern's group, which is empty.
\<close>

theorem phone_value_is_group_text:
  "finditer phone_pattern (py ''555-123-4567'') = [(0, 12, py ''555-123-4567'', None)] \<and>
   detect_entities (py ''555-123-4567'') = [\<lparr>etype = py ''phone'', evalue = []\<rparr>]"
  by code_simp

lemma registry_key_ssn:
  "t \<in> fst ` set patterns \<Longrightarrow> mask_key t v = mask_key (py ''ssn'') v' \<Longrightarrow> t = py ''ssn''"
  by (auto simp: patterns_def mask_key_def py_def)

lemma masked_value_ssn: "masked_value (py ''ssn'') v c = Inr (py ''***-**-****'')"
  by (simp add: masked_value_def py_def)

lemma goc_ssn_fixed:
  assumes "ssn_fixed s" and "t \<in> fst ` set patterns"
  shows "ssn_fixed (snd (get_or_create_mapping t v s))"
proof (cases "map_of (entity_mappings s) (mask_key t v)")
  case (Some tok)
  then show ?thesis using assms(1) by (simp add: get_or_create_mapping_def)
next
  case None
  show ?thesis
  proof (cases "masked_value t v (entity_counter s)")
    case (Inl e)
    with None show ?thesis using assms(1) by (simp add: get_or_create_mapping_def)
  next
    case (Inr mv)
    have "tok = py ''***-**-****''"
      if look: "map_of (entity_mappings s @ [(mask_key t v, mv)]) (mask_key (py ''ssn'') v') = Some tok"
      for v' tok
    proof (cases "map_of (entity_mappings s) (mask_key (py ''ssn'') v')")
      case (Some old)
      with look have "tok = old" by (simp add: map_add_Some_iff)
      with Some assms(1) show ?thesis by (simp add: ssn_fixed_def)
    next
      case None
      with look have k: "mask_key t v = mask_key (py ''ssn'') v'" and m: "mv = tok"
        by (auto simp: map_add_Some_iff split: if_splits)
      from registry_key_ssn[OF assms(2) k] have "t = py ''ssn''" .
      with Inr m show ?thesis by (simp add: masked_value_ssn)
    qed
    with None Inr show ?thesis
      by (simp add: get_or_create_mapping_def ssn_fixed_def)
  qed
qed

lemma detect_entities_types: "e \<in> set (detect_entities text) \<Longrightarrow> etype e \<in> fst ` set patterns"
  by (force simp: detect_entities_def)

lemma set_sort_entities: "set (sort_entities es) = set es"
  by (simp add: sort_entities_def)

lemma redact_loop_ssn_fixed:
  "ssn_fixed s \<Longrightarrow> \<forall>e\<in>set es. etype e \<in> fst ` set patterns \<Longrightarrow>
   ssn_fixed (snd (redact_loop es rc s))"
proof (induction es arbitrary: rc s)
  case Nil
  then show ?case by simp
next
  case (Cons e es)
  obtain r s' where g: "get_or_create_mapping (etype e) (evalue e) s = (r, s')"
    by (cases "get_or_create_mapping (etype e) (evalue e) s")
  have fx: "ssn_fixed s'"
    using goc_ssn_fixed[of s "etype e" "evalue e"] Cons.prems g by simp
  show ?case
  proof (cases r)
    case (Inl err)
    with g fx show ?thesis by simp
  next
    case (Inr mv)
    with g have "redact_loop (e # es) rc s = redact_loop es (py_replace (evalue e) mv rc) s'"
      by simp
    with Cons.IH[OF fx] Cons.prems(2) show ?thesis by simp
  qed
qed

lemma redact_content_scope:
  "snd (redact_content text s) = snd (redact_loop (sort_entities (detect_entities text)) text s)"
  by (simp add: redact_content_def split: prod.split sum.split)

lemma redact_content_ssn_fixed: "ssn_fixed s \<Longrightarrow> ssn_fixed (snd (redact_content text s))"
  unfolding redact_content_scope
  by (rule redact_loop_ssn_fixed) (auto simp: set_sort_entities detect_entities_types)

lemma redact_many_ssn_fixed: "ssn_fixed s \<Longrightarrow> ssn_fixed (redact_many texts s)"
  by (induction texts arbitrary: s) (auto simp: redact_content_ssn_fixed)

lemma init_ssn_fixed: "ssn_fixed init_scope"
  by (simp add: ssn_fixed_def init_scope_def)

text \<open>
  Claim C7. In a scope that any sequence of redactions has produced from a fresh one, the
  token that \<open>get_or_create_mapping\<close> gives to a value of type ssn is the fixed literal
  \<^verbatim>\<open>***-**-****\<close>, whatever the value.
\<close>

theorem ssn_token_fixed:
  "fst (get_or_create_mapping (py ''ssn'') v (redact_many texts init_scope)) =
     Inr (py ''***-**-****'')"
proof -
  have fx: "ssn_fixed (redact_many texts init_scope)"
    by (rule redact_many_ssn_fixed) (rule init_ssn_fixed)
  show ?thesis
  proof (cases "map_of (entity_mappings (redact_many texts init_scope)) (mask_key (py ''ssn'') v)")
    case None
    then show ?thesis by (simp add: get_or_create_mapping_def masked_value_ssn)
  next
    case (Some tok)
    with fx have "tok = py ''***-**-****''" by (simp add: ssn_fixed_def)
    with Some show ?thesis by (simp add: get_or_create_mapping_def)
  qed
qed

text \<open>Claim C7 at a second social security number, after one was redacted in the
  scope; and the redaction of \<^verbatim>\<open>123-45-6789\<close> itself.\<close>

theorem ssn_token_fixed_witness:
  "fst (get_or_create_mapping (py ''ssn'') (py ''987-65-4321'')
          (redact_many [py ''123-45-6789''] init_scope)) = Inr (py ''***-**-****'') \<and>
   redact_content (py ''123-45-6789'') init_scope =
     (Inr \<lparr>original_content = py ''123-45-6789'', redacted_content = py ''***-**-****'',
            detected_entities = [\<lparr>etype = py ''ssn'', evalue = py ''123-45-6789''\<rparr>],
            report_entity_mappings = [(py ''ssn:123-45-6789'', py ''***-**-****'')]\<rparr>,
      \<lparr>entity_mappings = [(py ''ssn:123-45-6789'', py ''***-**-****'')], entity_counter = 2\<rparr>)"
proof -
  have r: "redact_content (py ''123-45-6789'') init_scope =
     (Inr \<lparr>original_content = py ''123-45-6789'', redacted_content = py ''***-**-****'',
            detected_entities = [\<lparr>etype = py ''ssn'', evalue = py ''123-45-6789''\<rparr>],
            report_entity_mappings = [(py ''ssn:123-45-6789'', py ''***-**-****'')]\<rparr>,
      \<lparr>entity_mappings = [(py ''ssn:123-45-6789'', py ''***-**-****'')], entity_counter = 2\<rparr>)"
    by code_simp
  from ssn_token_fixed[of "py ''987-65-4321''" "[py ''123-45-6789'']"] r show ?thesis by simp
qed
















lemma redact_loop_keeps:
  "map_of (entity_mappings s) k = Some x \<Longrightarrow>
   map_of (entity_mappings (snd (redact_loop es rc s))) k = Some x"
proof (induction es arbitrary: rc s)
  case Nil
  then show ?case by simp
next
  case (Cons e es)
  obtain r s1 where g: "get_or_create_mapping (etype e) (evalue e) s = (r, s1)"
    by (cases "get_or_create_mapping (etype e) (evalue e) s")
  have k1: "map_of (entity_mappings s1) k = Some x"
    using goc_keeps[OF Cons.prems, of "etype e" "evalue e"] g by simp
  show ?case
  proof (cases r)
    case (Inl err)
    with g k1 show ?thesis by simp
  next
    case (Inr mv)
    with g Cons.IH[OF k1] show ?thesis by simp
  qed
qed

lemma redact_loop_fold:
  "redact_loop es rc s = (Inr out, s') \<Longrightarrow>
   out = foldl (\<lambda>acc e. py_replace (evalue e) (token_of s' e) acc) rc es \<and>
   (\<forall>e\<in>set es. \<exists>tok. map_of (entity_mappings s') (mask_key (etype e) (evalue e)) = Some tok)"
proof (induction es arbitrary: rc s)
  case Nil
  then show ?case by simp
next
  case (Cons e es)
  obtain r s1 where g: "get_or_create_mapping (etype e) (evalue e) s = (r, s1)"
    by (cases "get_or_create_mapping (etype e) (evalue e) s")
  show ?case
  proof (cases r)
    case (Inl err)
    with g Cons.prems show ?thesis by simp
  next
    case (Inr mv)
    with g Cons.prems have rest: "redact_loop es (py_replace (evalue e) mv rc) s1 = (Inr out, s')"
      by simp
    from g Inr have "map_of (entity_mappings s1) (mask_key (etype e) (evalue e)) = Some mv"
      by (simp add: goc_stores)
    then have "map_of (entity_mappings (snd (redact_loop es (py_replace (evalue e) mv rc) s1)))
                 (mask_key (etype e) (evalue e)) = Some mv"
      by (rule redact_loop_keeps)
    with rest have stored: "map_of (entity_mappings s') (mask_key (etype e) (evalue e)) = Some mv"
      by simp
    then have tok: "token_of s' e = mv" by (simp add: token_of_def)
    from Cons.IH[OF rest] tok stored show ?thesis by simp
  qed
qed

lemma redact_content_Inr:
  "redact_content text s = (Inr r, s') \<Longrightarrow>
   \<exists>out. redact_loop (sort_entities (detect_entities text)) text s = (Inr out, s') \<and>
         redacted_content r = out \<and>
         detected_entities r = sort_entities (detect_entities text)"
  by (auto simp: redact_content_def split: prod.splits sum.splits)

lemma sort_entities_descending:
  "sorted_wrt (\<lambda>a b. length (evalue b) \<le> length (evalue a)) (sort_entities es)"
proof -
  have "sorted (map (\<lambda>x. - int (length (evalue x))) (sort_entities es))"
    by (simp add: sort_entities_def)
  then show ?thesis by (simp add: sorted_map)
qed

lemma sort_entities_stable:
  "filter (\<lambda>e. length (evalue e) = n) (sort_entities es) = filter (\<lambda>e. length (evalue e) = n) es"
proof -
  have "filter (\<lambda>e. - int (length (evalue e)) = - int n) (sort_entities es) =
        filter (\<lambda>e. - int (length (evalue e)) = - int n) es"
    unfolding sort_entities_def by (rule sort_key_stable)
  then show ?thesis by simp
qed

text \<open>
  Claim C2 as stated fails. In \<^verbatim>\<open>john@acme.com now\<close> the email match (offsets 0 to 13)
  and the name match \<^verbatim>\<open>com now\<close> (offsets 10 to 17) overlap; both entities are processed,
  both get a token and both substitutions are made.
\<close>

theorem overlapping_matches_counterexample:
  "entity_spans (py ''john@acme.com now'') =
     [(py ''email'', 0, 13, py ''john@acme.com''), (py ''name'', 10, 17, py ''com now'')] \<and>
   \<not> non_overlapping (entity_spans (py ''john@acme.com now'')) \<and>
   redact_content (py ''john@acme.com now'') init_scope =
     (Inr \<lparr>original_content = py ''john@acme.com now'',
            redacted_content = py ''jo**@ac**@Person B'',
            detected_entities = [\<lparr>etype = py ''email'', evalue = py ''john@acme.com''\<rparr>,
                                 \<lparr>etype = py ''name'', evalue = py ''com now''\<rparr>],
            report_entity_mappings = [(py ''email:john@acme.com'', py ''jo**@ac**@com''),
                                      (py ''name:com now'', py ''Person B'')]\<rparr>,
      \<lparr>entity_mappings = [(py ''email:john@acme.com'', py ''jo**@ac**@com''),
                           (py ''name:com now'', py ''Person B'')], entity_counter = 3\<rparr>)"
  by code_simp

text \<open>
  Claim C2, amended. The entities that a redaction pass processes are all the detected
  ones, none is discarded: the processed list is the detected list reordered by
  descending length of the value, entities of equal length keeping their order of
  detection, and after the pass every detected entity has a token in the table. Nothing
  in the pass tests spans for overlap.
\<close>

theorem all_matches_applied_longest_first:
  assumes "redact_content text s = (Inr r, s')"
  shows "mset (detected_entities r) = mset (detect_entities text) \<and>
         sorted_wrt (\<lambda>a b. length (evalue b) \<le> length (evalue a)) (detected_entities r) \<and>
         (\<forall>n. filter (\<lambda>e. length (evalue e) = n) (detected_entities r) =
               filter (\<lambda>e. length (evalue e) = n) (detect_entities text)) \<and>
         (\<forall>e\<in>set (detect_entities text).
            \<exists>tok. map_of (entity_mappings s') (mask_key (etype e) (evalue e)) = Some tok)"
proof -
  from redact_content_Inr[OF assms] obtain out where
    loop: "redact_loop (sort_entities (detect_entities text)) text s = (Inr out, s')" and
    det: "detected_entities r = sort_entities (detect_entities text)" by blast
  have A: "mset (detected_entities r) = mset (detect_entities text)"
    by (simp add: det sort_entities_def)
  have B: "sorted_wrt (\<lambda>a b. length (evalue b) \<le> length (evalue a)) (detected_entities r)"
    by (simp add: det sort_entities_descending)
  have C: "\<forall>n. filter (\<lambda>e. length (evalue e) = n) (detected_entities r) =
               filter (\<lambda>e. length (evalue e) = n) (detect_entities text)"
    by (simp add: det sort_entities_stable)
  have "\<forall>e\<in>set (sort_entities (detect_entities text)).
            \<exists>tok. map_of (entity_mappings s') (mask_key (etype e) (evalue e)) = Some tok"
    using redact_loop_fold[OF loop] by blast
  then have D: "\<forall>e\<in>set (detect_entities text).
            \<exists>tok. map_of (entity_mappings s') (mask_key (etype e) (evalue e)) = Some tok"
    by (simp add: set_sort_entities)
  from A B C D show ?thesis by blast
qed

text \<open>Claim C2, amended, at a text with a name followed by a social security number.\<close>

theorem all_matches_applied_longest_first_witness:
  "redact_content (py ''ab cd 123-45-6789'') init_scope =
     (Inr \<lparr>original_content = py ''ab cd 123-45-6789'',
            redacted_content = py ''Person B ***-**-****'',
            detected_entities = [\<lparr>etype = py ''ssn'', evalue = py ''123-45-6789''\<rparr>,
                                 \<lparr>etype = py ''name'', evalue = py ''ab cd''\<rparr>],
            report_entity_mappings = [(py ''ssn:123-45-6789'', py ''***-**-****''),
                                      (py ''name:ab cd'', py ''Person B'')]\<rparr>,
      \<lparr>entity_mappings = [(py ''ssn:123-45-6789'', py ''***-**-****''),
                           (py ''name:ab cd'', py ''Person B'')], entity_counter = 3\<rparr>) \<and>
   mset [\<lparr>etype = py ''ssn'', evalue = py ''123-45-6789''\<rparr>,
         \<lparr>etype = py ''name'', evalue = py ''ab cd''\<rparr>] =
     mset (detect_entities (py ''ab cd 123-45-6789''))"
proof -
  have h: "redact_content (py ''ab cd 123-45-6789'') init_scope =
     (Inr \<lparr>original_content = py ''ab cd 123-45-6789'',
            redacted_content = py ''Person B ***-**-****'',
            detected_entities = [\<lparr>etype = py ''ssn'', evalue = py ''123-45-6789''\<rparr>,
                                 \<lparr>etype = py ''name'', evalue = py ''ab cd''\<rparr>],
            report_entity_mappings = [(py ''ssn:123-45-6789'', py ''***-**-****''),
                                      (py ''name:ab cd'', py ''Person B'')]\<rparr>,
      \<lparr>entity_mappings = [(py ''ssn:123-45-6789'', py ''***-**-****''),
                           (py ''name:ab cd'', py ''Person B'')], entity_counter = 3\<rparr>)"
    by code_simp
  from all_matches_applied_longest_first[OF h] h show ?thesis by simp
qed

text \<open>
  Claim C3 as stated fails. In \<^verbatim>\<open>ab cd5 ab cd\<close> the only match is the name at offsets 7
  to 12. Substitution by offsets gives \<^verbatim>\<open>ab cd5 Person A\<close>; the program gives
  \<^verbatim>\<open>Person A5 Person A\<close>.
\<close>

theorem offset_substitution_counterexample:
  "entity_spans (py ''ab cd5 ab cd'') = [(py ''name'', 7, 12, py ''ab cd'')] \<and>
   spec_redact (py ''ab cd5 ab cd'') init_scope = py ''ab cd5 Person A'' \<and>
   redact_content (py ''ab cd5 ab cd'') init_scope =
     (Inr \<lparr>original_content = py ''ab cd5 ab cd'',
            redacted_content = py ''Person A5 Person A'',
            detected_entities = [\<lparr>etype = py ''name'', evalue = py ''ab cd''\<rparr>],
            report_entity_mappings = [(py ''name:ab cd'', py ''Person A'')]\<rparr>,
      \<lparr>entity_mappings = [(py ''name:ab cd'', py ''Person A'')], entity_counter = 2\<rparr>) \<and>
   py ''Person A5 Person A'' \<noteq> py ''ab cd5 Person A''"
  by code_simp

text \<open>
  Claim C3, amended. The redacted output is obtained from the input by one
  \<^verbatim>\<open>str.replace\<close> for each detected entity, taken in the order of descending length of
  the value: every occurrence of the entity's value in the working string, as the earlier
  replacements have left it, is replaced by the token that the table holds for the
  entity. Offsets play no part.
\<close>

theorem output_is_fold_of_replace:
  assumes "redact_content text s = (Inr r, s')"
  shows "redacted_content r =
           foldl (\<lambda>acc e. py_replace (evalue e) (token_of s' e) acc) text
             (sort_entities (detect_entities text))"
proof -
  from redact_content_Inr[OF assms] obtain out where
    loop: "redact_loop (sort_entities (detect_entities text)) text s = (Inr out, s')" and
    red: "redacted_content r = out" by blast
  from redact_loop_fold[OF loop] red show ?thesis by simp
qed

text \<open>Claim C3, amended, at the text \<^verbatim>\<open>ab cd5 ab cd\<close>.\<close>

theorem output_is_fold_of_replace_witness:
  "redact_content (py ''ab cd5 ab cd'') init_scope =
     (Inr \<lparr>original_content = py ''ab cd5 ab cd'',
            redacted_content = py ''Person A5 Person A'',
            detected_entities = [\<lparr>etype = py ''name'', evalue = py ''ab cd''\<rparr>],
            report_entity_mappings = [(py ''name:ab cd'', py ''Person A'')]\<rparr>,
      \<lparr>entity_mappings = [(py ''name:ab cd'', py ''Person A'')], entity_counter = 2\<rparr>) \<and>
   foldl (\<lambda>acc e. py_replace (evalue e)
            (token_of \<lparr>entity_mappings = [(py ''name:ab cd'', py ''Person A'')],
                        entity_counter = 2\<rparr> e) acc)
      (py ''ab cd5 ab cd'') (sort_entities (detect_entities (py ''ab cd5 ab cd'')))
     = py ''Person A5 Person A''"
proof -
  have h: "redact_content (py ''ab cd5 ab cd'') init_scope =
     (Inr \<lparr>original_content = py ''ab cd5 ab cd'',
            redacted_content = py ''Person A5 Person A'',
            detected_entities = [\<lparr>etype = py ''name'', evalue = py ''ab cd''\<rparr>],
            report_entity_mappings = [(py ''name:ab cd'', py ''Person A'')]\<rparr>,
      \<lparr>entity_mappings = [(py ''name:ab cd'', py ''Person A'')], entity_counter = 2\<rparr>)"
    by code_simp
  from output_is_fold_of_replace[OF h] h show ?thesis by simp
qed

end
